theory Spec2Isabelle
  imports Main "HOL-Library.AList"
begin

section \<open>Data model (types/index.ts)\<close>

text \<open>
  The session coordinator is the class \<open>GameSession\<close> of game-session.ts (the variant that
  extends \<open>DurableObject\<close>, loads decks and recovers its room code).  Its fields and the SQLite
  tables it owns are a record; every method takes the object and returns it updated.
\<close>

datatype GamePhase = Waiting | Presenting | Voting | Finished

datatype VoteChoice = Logical | Chaotic

record Votes =
  logical :: nat
  chaotic :: nat

text \<open>
  A JavaScript \<open>Set<string>\<close> keeps insertion order and holds no element twice.  It is a list
  here; \<open>set_has\<close>, \<open>set_add\<close> and \<open>new_Set\<close> are \<open>has\<close>, \<open>add\<close> and
  \<open>new Set(array)\<close>.
\<close>

definition set_has :: "string list \<Rightarrow> string \<Rightarrow> bool" where
  "set_has xs x = (x \<in> set xs)"

definition set_add :: "string \<Rightarrow> string list \<Rightarrow> string list" where
  "set_add x xs = (if set_has xs x then xs else xs @ [x])"

definition new_Set :: "string list \<Rightarrow> string list" where
  "new_Set xs = foldl (\<lambda>acc x. set_add x acc) [] xs"

record GameState =
  sessionId :: string
  currentSlide :: string
  usedSlides :: "string list"
  phase :: GamePhase
  votes :: Votes
  voters :: "string list"
  votingOpen :: bool
  timerEnd :: int
  slideCount :: int
  maxSlides :: int

text \<open>Rows of the tables \<open>adjacency\<close>, \<open>game_session\<close> and \<open>do_metadata\<close>.  The first and
  the last leave out their key column (\<open>slide_id\<close>, \<open>key\<close>), which the table holds beside
  the row.  The JSON text columns are held parsed; \<open>JSON.stringify(Array.from(set))\<close> is
  the list itself.\<close>

record AdjacencyRecord =
  logical_slides :: "string list"
  chaotic_slides :: "string list"

record GameRecord =
  session_id :: string
  current_slide :: string
  used_slides :: "string list"
  row_phase :: GamePhase
  slide_count :: int
  max_slides :: int
  timer_end :: int
  created_at :: int
  updated_at :: int

record MetadataRecord =
  md_value :: string
  md_created_at :: int

text \<open>What \<open>getStatus\<close> and \<open>getPublicGameState\<close> return, and the push-channel messages.\<close>

record GameStatusResponse =
  st_sessionId :: string
  st_currentSlide :: string
  st_phase :: GamePhase
  st_votes :: Votes
  st_timeRemaining :: int
  st_slideCount :: int
  st_votingOpen :: bool

record PublicGameState =
  pub_sessionId :: string
  pub_currentSlide :: string
  pub_phase :: GamePhase
  pub_votes :: Votes
  pub_timeRemaining :: int
  pub_slideCount :: int
  pub_maxSlides :: int
  pub_votingOpen :: bool

datatype WebSocketMessage =
    GameStateMsg "PublicGameState option" int
  | VoteUpdateMsg "Votes option" int
  | SlideChangeMsg string int

text \<open>
  The effects a method has on the outside, in the order the method performs them: a write
  of the session row (\<open>saveGameState\<close>), a write of the room code (\<open>storeRoomCode\<close>), a
  send to every attached socket (\<open>broadcast\<close>) and \<open>ctx.storage.setAlarm\<close>.
\<close>

datatype effect =
    Persisted GameRecord
  | RoomCodeStored string
  | Broadcast WebSocketMessage
  | AlarmSet int

text \<open>
  The error responses of the RPC methods, one constructor for each distinct response of the
  source; \<open>http_status\<close> and \<open>error_message\<close> give the response's status and its
  \<open>error\<close> field.
\<close>

datatype error =
    SessionNotInitialized
  | VotingNotOpen
  | UserAlreadyVoted
  | DeckNotFound string
  | DeckNotReady string
  | DeckAdjacencyNotFound string
  | FailedToLoadDeck string
  | SessionNotFound

fun http_status :: "error \<Rightarrow> nat" where
  "http_status SessionNotInitialized = 400"
| "http_status VotingNotOpen = 400"
| "http_status UserAlreadyVoted = 400"
| "http_status (DeckNotFound d) = 404"
| "http_status (DeckNotReady st) = 400"
| "http_status (DeckAdjacencyNotFound d) = 404"
| "http_status (FailedToLoadDeck m) = 500"
| "http_status SessionNotFound = 404"

fun error_message :: "error \<Rightarrow> string" where
  "error_message SessionNotInitialized = ''Session not initialized''"
| "error_message VotingNotOpen = ''Voting is not currently open''"
| "error_message UserAlreadyVoted = ''User has already voted''"
| "error_message (DeckNotFound d) = ''Deck not found: '' @ d"
| "error_message (DeckNotReady st) = ''Deck is not ready. Current status: '' @ st"
| "error_message (DeckAdjacencyNotFound d) = ''Deck adjacency data not found for: '' @ d"
| "error_message (FailedToLoadDeck m) = ''Failed to load deck: '' @ m"
| "error_message SessionNotFound = ''Session not found''"

text \<open>
  The KV namespace \<open>env.DECKS\<close>.  A stored value is JSON text: \<open>Malformed m\<close> is text on
  which \<open>JSON.parse\<close> throws an error with message \<open>m\<close>, \<open>Parsed v\<close> is text that parses
  to \<open>v\<close>; an absent key is \<open>None\<close>.
\<close>

datatype 'a json = Malformed string | Parsed 'a

record Env =
  deck_metadata :: "string \<rightharpoonup> string json"
  deck_adjacency :: "string \<rightharpoonup> (string \<times> AdjacencyRecord) list json"

text \<open>
  The object: its fields \<open>gameState\<close> and \<open>roomCode\<close>, the id of \<open>ctx\<close>, the three
  SQLite tables (each a list of rows under its primary key, read with \<open>map_of\<close> and
  written with \<open>AList.update\<close>, which is \<open>INSERT OR REPLACE\<close>), the pending alarm, and the
  trace of effects so far.
\<close>

record GameSession =
  doId :: string
  gameState :: "GameState option"
  roomCode :: "string option"
  adjacency :: "(string \<times> AdjacencyRecord) list"
  game_session :: "(string \<times> GameRecord) list"
  do_metadata :: "(string \<times> MetadataRecord) list"
  alarmAt :: "int option"
  effects :: "effect list"

section \<open>The coordinator (game-session.ts)\<close>

text \<open>
  Every method that reads the clock takes the time \<open>now\<close> of the call (\<open>Date.now()\<close>, read
  once for the call).  Sockets are not part of the object: a broadcast is recorded as one
  effect, whatever the number of sockets attached.
\<close>

text \<open>
  Every query of the source reads its result with the cursor method \<open>one()\<close>, which returns
  the row when the result has exactly one and throws when it has none (the casts to
  \<open>... | null\<close> and the tests for \<open>null\<close> that follow it never see \<open>null\<close>).  The queries
  are by primary key, so a result has at most one row.  A thrown exception is a value, and
  each \<open>try\<close>/\<open>catch\<close> of the source is a case distinction on it.
\<close>

datatype thrown = NoRows

definition one_row :: "'a option \<Rightarrow> thrown + 'a" where
  "one_row result = (case result of None \<Rightarrow> Inl NoRows | Some row \<Rightarrow> Inr row)"

text \<open>JavaScript truthiness of a \<open>string | null\<close>: \<open>null\<close> and the empty string are falsy.\<close>

fun truthy :: "string option \<Rightarrow> bool" where
  "truthy None = False"
| "truthy (Some x) = (x \<noteq> [])"

definition mockSlides :: "(string \<times> AdjacencyRecord) list" where
  "mockSlides =
    [(''slide_1'', \<lparr>logical_slides = [''slide_2'', ''slide_3'', ''slide_4''],
                    chaotic_slides = [''slide_8'', ''slide_9'', ''slide_10'']\<rparr>),
     (''slide_2'', \<lparr>logical_slides = [''slide_1'', ''slide_3'', ''slide_5''],
                    chaotic_slides = [''slide_7'', ''slide_9'', ''slide_10'']\<rparr>),
     (''slide_3'', \<lparr>logical_slides = [''slide_1'', ''slide_2'', ''slide_6''],
                    chaotic_slides = [''slide_8'', ''slide_10'', ''slide_7'']\<rparr>),
     (''slide_4'', \<lparr>logical_slides = [''slide_1'', ''slide_5'', ''slide_6''],
                    chaotic_slides = [''slide_9'', ''slide_10'', ''slide_8'']\<rparr>),
     (''slide_5'', \<lparr>logical_slides = [''slide_2'', ''slide_4'', ''slide_6''],
                    chaotic_slides = [''slide_7'', ''slide_8'', ''slide_10'']\<rparr>),
     (''slide_6'', \<lparr>logical_slides = [''slide_3'', ''slide_4'', ''slide_5''],
                    chaotic_slides = [''slide_7'', ''slide_8'', ''slide_9'']\<rparr>),
     (''slide_7'', \<lparr>logical_slides = [''slide_8'', ''slide_9'', ''slide_10''],
                    chaotic_slides = [''slide_1'', ''slide_2'', ''slide_3'']\<rparr>),
     (''slide_8'', \<lparr>logical_slides = [''slide_7'', ''slide_9'', ''slide_10''],
                    chaotic_slides = [''slide_1'', ''slide_3'', ''slide_4'']\<rparr>),
     (''slide_9'', \<lparr>logical_slides = [''slide_7'', ''slide_8'', ''slide_10''],
                    chaotic_slides = [''slide_2'', ''slide_4'', ''slide_5'']\<rparr>),
     (''slide_10'', \<lparr>logical_slides = [''slide_7'', ''slide_8'', ''slide_9''],
                     chaotic_slides = [''slide_3'', ''slide_5'', ''slide_6'']\<rparr>)]"

definition loadMockSlideData :: "GameSession \<Rightarrow> GameSession" where
  "loadMockSlideData s = s\<lparr>adjacency := adjacency s @ mockSlides\<rparr>"

definition loadMockDataIfNeeded :: "GameSession \<Rightarrow> GameSession" where
  "loadMockDataIfNeeded s = (if length (adjacency s) = 0 then loadMockSlideData s else s)"

definition initializeTables :: "GameSession \<Rightarrow> GameSession" where
  "initializeTables s = loadMockDataIfNeeded s"

definition storeRoomCode :: "string \<Rightarrow> int \<Rightarrow> GameSession \<Rightarrow> GameSession" where
  "storeRoomCode rc now s =
     s\<lparr>do_metadata :=
         AList.update ''room_code'' \<lparr>md_value = rc, md_created_at = now\<rparr> (do_metadata s),
       effects := effects s @ [RoomCodeStored rc]\<rparr>"

definition recoverRoomCodeFromStorage :: "GameSession \<Rightarrow> GameSession" where
  "recoverRoomCodeFromStorage s =
     (case one_row (map_of (do_metadata s) ''room_code'') of
        Inr r \<Rightarrow> s\<lparr>roomCode := Some (md_value r)\<rparr>
      | Inl e \<Rightarrow> s)"

text \<open>The constructor, on the storage the object finds: a new object on empty storage, or
  the object recreated after eviction (its fields start empty, its storage is kept).\<close>

definition construct :: "GameSession \<Rightarrow> GameSession" where
  "construct s =
     recoverRoomCodeFromStorage (initializeTables (s\<lparr>gameState := None, roomCode := None\<rparr>))"

definition emptyStorage :: "string \<Rightarrow> GameSession" where
  "emptyStorage did =
     \<lparr>doId = did, gameState = None, roomCode = None, adjacency = [],
      game_session = [], do_metadata = [], alarmAt = None, effects = []\<rparr>"

definition newSession :: "string \<Rightarrow> GameSession" where
  "newSession did = construct (emptyStorage did)"

definition toRecord :: "GameState \<Rightarrow> int \<Rightarrow> GameRecord" where
  "toRecord g now =
     \<lparr>session_id = sessionId g, current_slide = currentSlide g, used_slides = usedSlides g,
      row_phase = phase g, slide_count = slideCount g, max_slides = maxSlides g,
      timer_end = timerEnd g, created_at = now, updated_at = now\<rparr>"

definition saveGameState :: "int \<Rightarrow> GameSession \<Rightarrow> GameSession" where
  "saveGameState now s =
     (case gameState s of
        None \<Rightarrow> s
      | Some g \<Rightarrow>
          s\<lparr>game_session := AList.update (sessionId g) (toRecord g now) (game_session s),
            effects := effects s @ [Persisted (toRecord g now)]\<rparr>)"

definition fromRecord :: "GameRecord \<Rightarrow> GameState" where
  "fromRecord r =
     \<lparr>sessionId = session_id r, currentSlide = current_slide r,
      usedSlides = new_Set (used_slides r), phase = row_phase r,
      votes = \<lparr>logical = 0, chaotic = 0\<rparr>, voters = [], votingOpen = False,
      timerEnd = timer_end r, slideCount = slide_count r, maxSlides = max_slides r\<rparr>"

definition loadGameState :: "int \<Rightarrow> GameSession \<Rightarrow> GameSession" where
  "loadGameState now s =
     (let s1 = (if \<not> truthy (roomCode s) then recoverRoomCodeFromStorage s else s);
          key = (if truthy (roomCode s1) then the (roomCode s1) else doId s1)
      in case one_row (map_of (game_session s1) key) of
           Inl e \<Rightarrow> s1
         | Inr r \<Rightarrow>
             (let s2 = (if \<not> truthy (roomCode s1) \<and> session_id r \<noteq> doId s1
                        then storeRoomCode (session_id r) now (s1\<lparr>roomCode := Some (session_id r)\<rparr>)
                        else s1)
              in s2\<lparr>gameState := Some (fromRecord r)\<rparr>))"

definition ensureGameStateLoaded :: "int \<Rightarrow> GameSession \<Rightarrow> GameSession" where
  "ensureGameStateLoaded now s = (if gameState s = None then loadGameState now s else s)"

definition getPublicGameState :: "int \<Rightarrow> GameSession \<Rightarrow> PublicGameState option" where
  "getPublicGameState now s =
     (case gameState s of
        None \<Rightarrow> None
      | Some g \<Rightarrow>
          Some \<lparr>pub_sessionId = sessionId g, pub_currentSlide = currentSlide g,
                pub_phase = phase g, pub_votes = votes g,
                pub_timeRemaining = max 0 (timerEnd g - now),
                pub_slideCount = slideCount g, pub_maxSlides = maxSlides g,
                pub_votingOpen = votingOpen g\<rparr>)"

definition broadcast :: "WebSocketMessage \<Rightarrow> GameSession \<Rightarrow> GameSession" where
  "broadcast m s = s\<lparr>effects := effects s @ [Broadcast m]\<rparr>"

definition broadcastGameState :: "int \<Rightarrow> GameSession \<Rightarrow> GameSession" where
  "broadcastGameState now s = broadcast (GameStateMsg (getPublicGameState now s) now) s"

definition broadcastVoteUpdate :: "int \<Rightarrow> GameSession \<Rightarrow> GameSession" where
  "broadcastVoteUpdate now s = broadcast (VoteUpdateMsg (map_option votes (gameState s)) now) s"

definition broadcastSlideChange :: "string \<Rightarrow> int \<Rightarrow> GameSession \<Rightarrow> GameSession" where
  "broadcastSlideChange slideId now s = broadcast (SlideChangeMsg slideId now) s"

definition setAlarm :: "int \<Rightarrow> GameSession \<Rightarrow> GameSession" where
  "setAlarm t s = s\<lparr>alarmAt := Some t, effects := effects s @ [AlarmSet t]\<rparr>"

definition startPresentationTimer :: "int \<Rightarrow> GameSession \<Rightarrow> GameSession" where
  "startPresentationTimer now s = setAlarm (now + 45000) s"

definition initialize :: "string option \<Rightarrow> int \<Rightarrow> GameSession \<Rightarrow> string \<times> GameSession" where
  "initialize rc now s =
     (let sid = (if truthy rc then the rc else doId s);
          s1 = s\<lparr>roomCode := (if truthy rc then rc else None)\<rparr>;
          s2 = (if truthy rc then storeRoomCode (the rc) now s1 else s1);
          s3 = s2\<lparr>gameState := Some
                 \<lparr>sessionId = sid, currentSlide = ''slide_1'', usedSlides = new_Set [''slide_1''],
                  phase = Waiting, votes = \<lparr>logical = 0, chaotic = 0\<rparr>, voters = [],
                  votingOpen = False, timerEnd = 0, slideCount = 1, maxSlides = 10\<rparr>\<rparr>
      in (sid, saveGameState now s3))"

text \<open>The deck-loading block of \<open>startGame\<close>: its early returns are \<open>Inl\<close>, and \<open>Inr\<close> is the
  object after \<open>DELETE FROM adjacency\<close> and one \<open>INSERT\<close> for each entry of the parsed
  object (\<open>Object.entries\<close>, whose keys are distinct).\<close>

definition loadDeck :: "Env \<Rightarrow> string \<Rightarrow> GameSession \<Rightarrow> error + GameSession" where
  "loadDeck env deckId s =
     (case deck_metadata env deckId of
        None \<Rightarrow> Inl (DeckNotFound deckId)
      | Some (Malformed m) \<Rightarrow> Inl (FailedToLoadDeck m)
      | Some (Parsed st) \<Rightarrow>
          if st \<noteq> ''ready'' then Inl (DeckNotReady st)
          else (case deck_adjacency env deckId of
                  None \<Rightarrow> Inl (DeckAdjacencyNotFound deckId)
                | Some (Malformed m) \<Rightarrow> Inl (FailedToLoadDeck m)
                | Some (Parsed adj) \<Rightarrow> Inr (s\<lparr>adjacency := adj\<rparr>)))"

definition startGame ::
  "Env \<Rightarrow> string \<Rightarrow> int option \<Rightarrow> int \<Rightarrow> GameSession \<Rightarrow> (error + PublicGameState option) \<times> GameSession" where
  "startGame env deckId maxSlidesArg now s =
     (let s1 = ensureGameStateLoaded now s
      in case gameState s1 of
           None \<Rightarrow> (Inl SessionNotInitialized, s1)
         | Some g \<Rightarrow>
             (case (if deckId \<noteq> [] \<and> deckId \<noteq> ''default'' then loadDeck env deckId s1 else Inr s1) of
                Inl e \<Rightarrow> (Inl e, s1)
              | Inr s2 \<Rightarrow>
                  (let g' = g\<lparr>phase := Presenting,
                              maxSlides := (case maxSlidesArg of None \<Rightarrow> 10 | Some m \<Rightarrow> m),
                              timerEnd := now + 45000\<rparr>;
                       s3 = saveGameState now (s2\<lparr>gameState := Some g'\<rparr>);
                       s4 = startPresentationTimer now s3;
                       s5 = broadcastGameState now s4
                   in (Inr (getPublicGameState now s5), s5))))"

definition vote ::
  "string \<Rightarrow> VoteChoice \<Rightarrow> int \<Rightarrow> GameSession \<Rightarrow> (error + Votes) \<times> GameSession" where
  "vote userId choice now s =
     (let s1 = ensureGameStateLoaded now s
      in case gameState s1 of
           None \<Rightarrow> (Inl VotingNotOpen, s1)
         | Some g \<Rightarrow>
             if \<not> votingOpen g then (Inl VotingNotOpen, s1)
             else if set_has (voters g) userId then (Inl UserAlreadyVoted, s1)
             else
               (let v = (case choice of
                           Logical \<Rightarrow> (votes g)\<lparr>logical := logical (votes g) + 1\<rparr>
                         | Chaotic \<Rightarrow> (votes g)\<lparr>chaotic := chaotic (votes g) + 1\<rparr>);
                    g' = g\<lparr>votes := v, voters := set_add userId (voters g)\<rparr>;
                    s2 = broadcastVoteUpdate now (s1\<lparr>gameState := Some g'\<rparr>)
                in (Inr v, s2)))"

definition getStatus :: "int \<Rightarrow> GameSession \<Rightarrow> (error + GameStatusResponse) \<times> GameSession" where
  "getStatus now s =
     (let s1 = ensureGameStateLoaded now s
      in case gameState s1 of
           None \<Rightarrow> (Inl SessionNotFound, s1)
         | Some g \<Rightarrow>
             (Inr \<lparr>st_sessionId = sessionId g, st_currentSlide = currentSlide g,
                   st_phase = phase g, st_votes = votes g,
                   st_timeRemaining = max 0 (timerEnd g - now),
                   st_slideCount = slideCount g, st_votingOpen = votingOpen g\<rparr>, s1))"

text \<open>\<open>startVotingTimer\<close> is called by \<open>alarm\<close> only, with a session state in memory (the
  source asserts it with \<open>gameState!\<close>).\<close>

definition startVotingTimer :: "int \<Rightarrow> GameSession \<Rightarrow> GameSession" where
  "startVotingTimer now s =
     (case gameState s of
        None \<Rightarrow> s
      | Some g \<Rightarrow>
          (let g' = g\<lparr>votingOpen := True, voters := [], votes := \<lparr>logical = 0, chaotic = 0\<rparr>,
                      timerEnd := now + 10000\<rparr>;
               s1 = saveGameState now (s\<lparr>gameState := Some g'\<rparr>);
               s2 = setAlarm (now + 10000) s1
           in broadcastGameState now s2))"

text \<open>The loop of \<open>getNextSlide\<close> over the parsed neighbour list.\<close>

fun firstUnused :: "string list \<Rightarrow> string list \<Rightarrow> string option" where
  "firstUnused used [] = None"
| "firstUnused used (slideId # options) =
     (if \<not> set_has used slideId then Some slideId else firstUnused used options)"

text \<open>\<open>getNextSlide\<close> has no \<open>try\<close>: when the current slide has no adjacency row, the
  exception of \<open>one()\<close> leaves the function.\<close>

definition getNextSlide :: "VoteChoice \<Rightarrow> GameSession \<Rightarrow> thrown + string option" where
  "getNextSlide choice s =
     (case gameState s of
        None \<Rightarrow> Inr None
      | Some g \<Rightarrow>
          (case one_row (map_of (adjacency s) (currentSlide g)) of
             Inl e \<Rightarrow> Inl e
           | Inr result \<Rightarrow>
               Inr (firstUnused (usedSlides g)
                      (if choice = Logical then logical_slides result
                       else chaotic_slides result))))"

text \<open>The winner expression of \<open>processVotesAndAdvance\<close>.\<close>

definition winner :: "Votes \<Rightarrow> VoteChoice" where
  "winner v = (if logical v > chaotic v then Logical else Chaotic)"

text \<open>\<open>processVotesAndAdvance\<close> does not catch either: it returns the exception, with the
  object as it is at that point (voting closed in memory, nothing else done).\<close>

definition processVotesAndAdvance :: "int \<Rightarrow> GameSession \<Rightarrow> (thrown + unit) \<times> GameSession" where
  "processVotesAndAdvance now s =
     (case gameState s of
        None \<Rightarrow> (Inr (), s)
      | Some g \<Rightarrow>
          (let g1 = g\<lparr>votingOpen := False\<rparr>;
               s1 = s\<lparr>gameState := Some g1\<rparr>
           in case getNextSlide (winner (votes g1)) s1 of
                Inl e \<Rightarrow> (Inl e, s1)
              | Inr nextSlide \<Rightarrow>
                  if \<not> truthy nextSlide \<or> slideCount g1 \<ge> maxSlides g1
                  then
                    (let s2 = s1\<lparr>gameState := Some (g1\<lparr>phase := Finished\<rparr>)\<rparr>;
                         s3 = broadcastGameState now s2
                     in (Inr (), saveGameState now s3))
                  else
                    (let n = the nextSlide;
                         g2 = g1\<lparr>currentSlide := n, usedSlides := set_add n (usedSlides g1),
                                 slideCount := slideCount g1 + 1, phase := Presenting,
                                 timerEnd := now + 45000\<rparr>;
                         s2 = saveGameState now (s1\<lparr>gameState := Some g2\<rparr>);
                         s3 = startPresentationTimer now s2;
                         s4 = broadcastGameState now s3
                     in (Inr (), broadcastSlideChange n now s4))))"

text \<open>The first two steps of \<open>alarm\<close>: recover the room code if the object has none, then
  \<open>ensureGameStateLoaded\<close>.  In the final-slide branch the source also assigns 0 to a
  property \<open>timeRemaining\<close> of the state, which \<open>GameState\<close> does not declare and nothing
  reads (the remaining time sent to clients is computed from \<open>timerEnd\<close>); it is left out.\<close>

definition alarmLoad :: "int \<Rightarrow> GameSession \<Rightarrow> GameSession" where
  "alarmLoad now s =
     ensureGameStateLoaded now
       (if \<not> truthy (roomCode s) then recoverRoomCodeFromStorage s else s)"

text \<open>The body of the \<open>try\<close> block of \<open>alarm\<close>, and \<open>alarm\<close> with its \<open>catch\<close>, which logs the
  exception and returns: the object stays as it was when the exception was thrown.\<close>

definition alarmBody :: "int \<Rightarrow> GameSession \<Rightarrow> (thrown + unit) \<times> GameSession" where
  "alarmBody now s =
     (let s1 = alarmLoad now s
      in case gameState s1 of
           None \<Rightarrow> (Inr (), s1)
         | Some g \<Rightarrow>
             if phase g = Presenting then
               (if slideCount g \<ge> maxSlides g then
                  (let s2 = saveGameState now (s1\<lparr>gameState := Some (g\<lparr>phase := Finished\<rparr>)\<rparr>)
                   in (Inr (), broadcastGameState now s2))
                else
                  (let s2 = saveGameState now (s1\<lparr>gameState := Some (g\<lparr>phase := Voting\<rparr>)\<rparr>)
                   in (Inr (), startVotingTimer now s2)))
             else if phase g = Voting then processVotesAndAdvance now s1
             else (Inr (), s1))"

definition alarm :: "int \<Rightarrow> GameSession \<Rightarrow> GameSession" where
  "alarm now s =
     (case alarmBody now s of
        (Inl e, s') \<Rightarrow> s'
      | (Inr u, s') \<Rightarrow> s')"

section \<open>Sequences of calls\<close>

text \<open>A sequence of \<open>vote\<close> calls (voter, choice, time of the call), with the response of each
  call; \<open>accepted\<close> keeps the calls that were answered with success.\<close>

fun castVotes ::
  "(string \<times> VoteChoice \<times> int) list \<Rightarrow> GameSession \<Rightarrow> (error + Votes) list \<times> GameSession" where
  "castVotes [] s = ([], s)"
| "castVotes ((userId, choice, now) # calls) s =
     (let (r, s1) = vote userId choice now s;
          (rs, s2) = castVotes calls s1
      in (r # rs, s2))"

fun accepted ::
  "(string \<times> VoteChoice \<times> int) list \<Rightarrow> (error + Votes) list \<Rightarrow> (string \<times> VoteChoice) list" where
  "accepted ((userId, choice, now) # calls) (Inr v # rs) = (userId, choice) # accepted calls rs"
| "accepted (call # calls) (Inl e # rs) = accepted calls rs"
| "accepted calls rs = []"

text \<open>
  The two WebSocket entry points, as far as the session state goes: \<open>fetch\<close> on an upgrade
  request and \<open>webSocketMessage\<close> both call \<open>ensureGameStateLoaded\<close> and then talk to the one
  socket only.
\<close>

definition fetch :: "int \<Rightarrow> GameSession \<Rightarrow> GameSession" where
  "fetch now s = ensureGameStateLoaded now s"

definition webSocketMessage :: "int \<Rightarrow> GameSession \<Rightarrow> GameSession" where
  "webSocketMessage now s = ensureGameStateLoaded now s"

text \<open>
  A game is \<open>initialize\<close> on a new coordinator followed by any sequence of the operations
  below, each with the time of the call: the RPC methods, the WebSocket entry points, the
  timer fire, and the eviction of the object followed by its recreation.
\<close>

datatype operation =
    StartGame Env string "int option"
  | Vote string VoteChoice
  | GetStatus
  | Fetch
  | WebSocketMessage
  | Alarm
  | Recreate

fun step :: "int \<times> operation \<Rightarrow> GameSession \<Rightarrow> GameSession" where
  "step (now, StartGame env deckId maxSlidesArg) s = snd (startGame env deckId maxSlidesArg now s)"
| "step (now, Vote userId choice) s = snd (vote userId choice now s)"
| "step (now, GetStatus) s = snd (getStatus now s)"
| "step (now, Fetch) s = fetch now s"
| "step (now, WebSocketMessage) s = webSocketMessage now s"
| "step (now, Alarm) s = alarm now s"
| "step (now, Recreate) s = construct s"

definition run :: "(int \<times> operation) list \<Rightarrow> GameSession \<Rightarrow> GameSession" where
  "run ops s = foldl (\<lambda>s' op. step op s') s ops"

text \<open>The session state the next operation works on: the state in memory, or the one
  \<open>ensureGameStateLoaded\<close> reloads.\<close>

definition visible :: "GameSession \<Rightarrow> GameState option" where
  "visible s = gameState (ensureGameStateLoaded 0 s)"

text \<open>
  The invariant of a game started by \<open>initialize rc\<close> on the coordinator \<open>did\<close>: the room
  code in memory and the stored one are the game's, the \<open>game_session\<close> row of the game
  exists and is consistent, and the state in memory, if any, agrees with the row on the
  slides.  \<open>usedView\<close> is the persisted list of used slides.
\<close>

definition gameKey :: "string option \<Rightarrow> string \<Rightarrow> string" where
  "gameKey rc did = (if truthy rc then the rc else did)"

definition rowConsistent :: "GameRecord \<Rightarrow> bool" where
  "rowConsistent r =
     (distinct (used_slides r) \<and> current_slide r \<in> set (used_slides r)
      \<and> slide_count r = int (length (used_slides r)))"

definition inMemoryAgrees :: "string \<Rightarrow> GameRecord \<Rightarrow> GameState option \<Rightarrow> bool" where
  "inMemoryAgrees key r go =
     (case go of
        None \<Rightarrow> True
      | Some g \<Rightarrow> sessionId g = key \<and> usedSlides g = used_slides r
                  \<and> currentSlide g = current_slide r \<and> slideCount g = slide_count r)"

definition gameInv :: "string option \<Rightarrow> string \<Rightarrow> GameSession \<Rightarrow> bool" where
  "gameInv rc did s =
     (doId s = did
      \<and> roomCode s = (if truthy rc then rc else None)
      \<and> map_option md_value (map_of (do_metadata s) ''room_code'') = (if truthy rc then rc else None)
      \<and> (case map_of (game_session s) (gameKey rc did) of
            None \<Rightarrow> False
          | Some r \<Rightarrow> session_id r = gameKey rc did \<and> rowConsistent r
                      \<and> inMemoryAgrees (gameKey rc did) r (gameState s)))"

definition usedView :: "string option \<Rightarrow> string \<Rightarrow> GameSession \<Rightarrow> string list" where
  "usedView rc did s =
     (case map_of (game_session s) (gameKey rc did) of None \<Rightarrow> [] | Some r \<Rightarrow> used_slides r)"

definition preserves :: "string option \<Rightarrow> string \<Rightarrow> GameSession \<Rightarrow> GameSession \<Rightarrow> bool" where
  "preserves rc did s s' =
     (gameInv rc did s' \<and> set (usedView rc did s) \<subseteq> set (usedView rc did s'))"

section \<open>Concrete sessions\<close>

text \<open>
  Runs of the coordinator from a new object, used to evaluate the theorems below at concrete
  inputs.  \<open>demoEnv\<close> is a KV namespace without decks, so the games use the mock slides;
  \<open>soloEnv\<close> holds one ready deck of a single slide, which has no neighbours.
\<close>

definition demoEnv :: Env where
  "demoEnv = \<lparr>deck_metadata = Map.empty, deck_adjacency = Map.empty\<rparr>"

definition demoWaiting :: GameSession where
  "demoWaiting = snd (initialize (Some ''ROOM01'') 0 (newSession ''do1''))"

definition demoPresenting :: GameSession where
  "demoPresenting = snd (startGame demoEnv ''default'' (Some 3) 1 demoWaiting)"

definition demoVoting :: GameSession where
  "demoVoting = alarm 45001 demoPresenting"

definition demoVoted :: GameSession where
  "demoVoted = snd (vote ''v1'' Logical 45002 demoVoting)"

definition demoLastSlide :: GameSession where
  "demoLastSlide = snd (startGame demoEnv ''default'' (Some 1) 1 demoWaiting)"

definition demoFinished :: GameSession where
  "demoFinished = alarm 45001 demoLastSlide"

definition soloEnv :: Env where
  "soloEnv =
     \<lparr>deck_metadata = [''solo'' \<mapsto> Parsed ''ready''],
      deck_adjacency =
        [''solo'' \<mapsto> Parsed [(''slide_1'', \<lparr>logical_slides = [], chaotic_slides = []\<rparr>)]]\<rparr>"

definition soloVoting :: GameSession where
  "soloVoting = alarm 45001 (snd (startGame soloEnv ''solo'' (Some 5) 1 demoWaiting))"

definition demoCalls :: "(string \<times> VoteChoice \<times> int) list" where
  "demoCalls = [(''v1'', Logical, 45002), (''v2'', Chaotic, 45003), (''v1'', Chaotic, 45004),
                (''v3'', Logical, 45005), (''v2'', Chaotic, 45006)]"

definition demoOps :: "(int \<times> operation) list" where
  "demoOps = [(1, StartGame demoEnv ''default'' (Some 3)), (45001, Alarm),
              (45002, Vote ''v1'' Logical), (50000, Recreate)]"


text \<open>A game that \<open>startGame\<close> interrupts while a round is open, with one slide as the limit;
  and the game at its second slide started again on the deck of one slide, whose table has
  no row for that second slide, with the next round opened.\<close>

definition demoInterrupted :: GameSession where
  "demoInterrupted = snd (startGame demoEnv ''default'' (Some 1) 50000 demoVoting)"


section \<open>Auxiliary facts\<close>

lemmas coordinator_defs =
  set_has_def set_add_def new_Set_def loadMockSlideData_def loadMockDataIfNeeded_def
  initializeTables_def storeRoomCode_def recoverRoomCodeFromStorage_def construct_def
  emptyStorage_def newSession_def toRecord_def saveGameState_def fromRecord_def
  loadGameState_def ensureGameStateLoaded_def getPublicGameState_def broadcast_def
  broadcastGameState_def broadcastVoteUpdate_def broadcastSlideChange_def setAlarm_def
  startPresentationTimer_def initialize_def loadDeck_def startGame_def vote_def getStatus_def
  startVotingTimer_def getNextSlide_def winner_def processVotesAndAdvance_def alarmLoad_def
  alarmBody_def alarm_def one_row_def

lemmas demo_defs =
  demoEnv_def demoWaiting_def demoPresenting_def demoVoting_def demoVoted_def
  demoLastSlide_def demoFinished_def mockSlides_def

lemma one_row_case [simp]:
  "(case one_row result of Inl e \<Rightarrow> f e | Inr row \<Rightarrow> h row) =
   (case result of None \<Rightarrow> f NoRows | Some row \<Rightarrow> h row)"
  by (cases result) (simp_all add: one_row_def)

lemma demoVoted_gameState:
  "gameState demoVoted = Some
     \<lparr>sessionId = ''ROOM01'', currentSlide = ''slide_1'', usedSlides = [''slide_1''],
      phase = Voting, votes = \<lparr>logical = 1, chaotic = 0\<rparr>, voters = [''v1''],
      votingOpen = True, timerEnd = 55001, slideCount = 1, maxSlides = 3\<rparr>"
  by (simp add: demo_defs coordinator_defs Let_def)

lemma load_without_rows:
  assumes "gameState s = None" and "game_session s = []"
  shows "gameState (ensureGameStateLoaded now s) = None"
    and "game_session (ensureGameStateLoaded now s) = []"
    and "effects (ensureGameStateLoaded now s) = effects s"
    and "do_metadata (ensureGameStateLoaded now s) = do_metadata s"
  using assms
  by (simp_all add: ensureGameStateLoaded_def loadGameState_def recoverRoomCodeFromStorage_def
      Let_def split: option.splits)

lemma demoVoting_gameState:
  "gameState demoVoting = Some
     \<lparr>sessionId = ''ROOM01'', currentSlide = ''slide_1'', usedSlides = [''slide_1''],
      phase = Voting, votes = \<lparr>logical = 0, chaotic = 0\<rparr>, voters = [],
      votingOpen = True, timerEnd = 55001, slideCount = 1, maxSlides = 3\<rparr>"
  by (simp add: demo_defs coordinator_defs Let_def)

lemma demoFinished_gameState:
  "gameState demoFinished = Some
     \<lparr>sessionId = ''ROOM01'', currentSlide = ''slide_1'', usedSlides = [''slide_1''],
      phase = Finished, votes = \<lparr>logical = 0, chaotic = 0\<rparr>, voters = [],
      votingOpen = False, timerEnd = 45001, slideCount = 1, maxSlides = 1\<rparr>"
  by (simp add: demo_defs coordinator_defs Let_def)

lemma demoPresenting_gameState:
  "gameState demoPresenting = Some
     \<lparr>sessionId = ''ROOM01'', currentSlide = ''slide_1'', usedSlides = [''slide_1''],
      phase = Presenting, votes = \<lparr>logical = 0, chaotic = 0\<rparr>, voters = [],
      votingOpen = False, timerEnd = 45001, slideCount = 1, maxSlides = 3\<rparr>"
  by (simp add: demo_defs coordinator_defs Let_def)

lemma demoPresenting_adjacency: "adjacency demoPresenting = mockSlides"
  by (simp add: demo_defs coordinator_defs Let_def)

lemma demoLastSlide_gameState:
  "gameState demoLastSlide = Some
     \<lparr>sessionId = ''ROOM01'', currentSlide = ''slide_1'', usedSlides = [''slide_1''],
      phase = Presenting, votes = \<lparr>logical = 0, chaotic = 0\<rparr>, voters = [],
      votingOpen = False, timerEnd = 45001, slideCount = 1, maxSlides = 1\<rparr>"
  by (simp add: demo_defs coordinator_defs Let_def)

lemma alarmLoad_in_memory:
  "gameState s = Some g \<Longrightarrow> gameState (alarmLoad now s) = Some g"
  by (simp add: alarmLoad_def ensureGameStateLoaded_def recoverRoomCodeFromStorage_def
      split: option.splits)

lemma alarmLoad_alarmAt: "alarmAt (alarmLoad now s) = alarmAt s"
  by (simp add: alarmLoad_def ensureGameStateLoaded_def loadGameState_def
      recoverRoomCodeFromStorage_def storeRoomCode_def Let_def split: option.splits)

lemma alarmLoad_effects:
  "\<exists>rs. effects (alarmLoad now s) = effects s @ rs \<and> (\<forall>t. AlarmSet t \<notin> set rs)"
  by (auto simp: alarmLoad_def ensureGameStateLoaded_def loadGameState_def
      recoverRoomCodeFromStorage_def storeRoomCode_def Let_def split: option.splits)








lemma processVotesAndAdvance_gameState:
  assumes "gameState s = Some g"
  shows "gameState (snd (processVotesAndAdvance now s)) =
     Some (case getNextSlide (winner (votes g)) (s\<lparr>gameState := Some (g\<lparr>votingOpen := False\<rparr>)\<rparr>) of
             Inl e \<Rightarrow> g\<lparr>votingOpen := False\<rparr>
           | Inr n \<Rightarrow>
               if \<not> truthy n \<or> slideCount g \<ge> maxSlides g
               then g\<lparr>votingOpen := False, phase := Finished\<rparr>
               else g\<lparr>votingOpen := False, currentSlide := the n,
                      usedSlides := set_add (the n) (usedSlides g),
                      slideCount := slideCount g + 1, phase := Presenting,
                      timerEnd := now + 45000\<rparr>)"
    and "fst (processVotesAndAdvance now s) =
     (case getNextSlide (winner (votes g)) (s\<lparr>gameState := Some (g\<lparr>votingOpen := False\<rparr>)\<rparr>) of
        Inl e \<Rightarrow> Inl e | Inr n \<Rightarrow> Inr ())"
  using assms
  by (simp_all add: processVotesAndAdvance_def Let_def saveGameState_def broadcastGameState_def
      broadcast_def startPresentationTimer_def setAlarm_def broadcastSlideChange_def
      split: sum.splits)

lemma alarm_voting:
  assumes "gameState (alarmLoad now s) = Some g" and "phase g = Voting"
  shows "alarmBody now s = processVotesAndAdvance now (alarmLoad now s)"
    and "alarm now s = snd (processVotesAndAdvance now (alarmLoad now s))"
  using assms by (simp_all add: alarm_def alarmBody_def Let_def split: prod.splits sum.splits)

lemma alarm_snd: "alarm now s = snd (alarmBody now s)"
  by (simp add: alarm_def split: prod.splits sum.splits)


lemma firstUnused_Some:
  "(firstUnused used opts = Some y) =
   (\<exists>pre post. opts = pre @ y # post \<and> set pre \<subseteq> set used \<and> y \<notin> set used)"
proof (induction opts)
  case Nil
  then show ?case by simp
next
  case (Cons x xs)
  show ?case
  proof (cases "x \<in> set used")
    case True
    have "(\<exists>pre post. x # xs = pre @ y # post \<and> set pre \<subseteq> set used \<and> y \<notin> set used)
        = (\<exists>pre post. xs = pre @ y # post \<and> set pre \<subseteq> set used \<and> y \<notin> set used)"
      (is "?L = ?R")
    proof
      assume ?L
      then obtain pre post where h: "x # xs = pre @ y # post" "set pre \<subseteq> set used" "y \<notin> set used"
        by blast
      with True obtain pre' where "pre = x # pre'" by (cases pre) auto
      with h show ?R by auto
    next
      assume ?R
      then obtain pre post where h: "xs = pre @ y # post" "set pre \<subseteq> set used" "y \<notin> set used"
        by blast
      then have "x # xs = (x # pre) @ y # post \<and> set (x # pre) \<subseteq> set used \<and> y \<notin> set used"
        using True by simp
      then show ?L by blast
    qed
    with True Cons show ?thesis by (simp add: set_has_def)
  next
    case False
    have "(\<exists>pre post. x # xs = pre @ y # post \<and> set pre \<subseteq> set used \<and> y \<notin> set used) = (x = y)"
    proof
      assume "\<exists>pre post. x # xs = pre @ y # post \<and> set pre \<subseteq> set used \<and> y \<notin> set used"
      then obtain pre post where h: "x # xs = pre @ y # post" "set pre \<subseteq> set used" by blast
      show "x = y"
      proof (cases pre)
        case Nil with h show ?thesis by simp
      next
        case (Cons a as) with h False show ?thesis by auto
      qed
    next
      assume "x = y"
      with False have "x # xs = [] @ y # xs \<and> set [] \<subseteq> set used \<and> y \<notin> set used" by simp
      then show "\<exists>pre post. x # xs = pre @ y # post \<and> set pre \<subseteq> set used \<and> y \<notin> set used" by blast
    qed
    with False show ?thesis by (auto simp: set_has_def)
  qed
qed

lemma vote_step:
  assumes "gameState s = Some g"
  shows "(\<exists>e. vote userId choice now s = (Inl e, s))
       \<or> (\<exists>v s1. vote userId choice now s = (Inr v, s1) \<and> userId \<notin> set (voters g)
            \<and> gameState s1 = Some (g\<lparr>votes := v, voters := voters g @ [userId]\<rparr>)
            \<and> logical v = logical (votes g) + (if choice = Logical then 1 else 0)
            \<and> chaotic v = chaotic (votes g) + (if choice = Chaotic then 1 else 0))"
  using assms
  by (cases choice)
     (auto simp: vote_def ensureGameStateLoaded_def set_has_def set_add_def Let_def
        broadcastVoteUpdate_def broadcast_def)

lemma choice_partition:
  "length (filter (\<lambda>(u, c). c = Logical) xs) + length (filter (\<lambda>(u, c). c = Chaotic) xs)
   = length (xs :: (string \<times> VoteChoice) list)"
proof (induction xs)
  case Nil
  then show ?case by simp
next
  case (Cons x xs)
  obtain u c where "x = (u, c)" by (cases x)
  with Cons show ?case by (cases c) simp_all
qed

lemma castVotes_round:
  assumes "gameState s = Some g" and "distinct (voters g)"
  shows "\<exists>g'. gameState (snd (castVotes calls s)) = Some g'
     \<and> voters g' = voters g @ map fst (accepted calls (fst (castVotes calls s)))
     \<and> distinct (voters g')
     \<and> logical (votes g') = logical (votes g)
         + length (filter (\<lambda>(u, c). c = Logical) (accepted calls (fst (castVotes calls s))))
     \<and> chaotic (votes g') = chaotic (votes g)
         + length (filter (\<lambda>(u, c). c = Chaotic) (accepted calls (fst (castVotes calls s))))"
  using assms
proof (induction calls arbitrary: s g)
  case Nil
  then show ?case by simp
next
  case (Cons call calls)
  obtain userId choice now where call: "call = (userId, choice, now)" by (cases call) auto
  from vote_step [OF Cons.prems(1), of userId choice now]
  show ?case
  proof (elim disjE exE conjE)
    fix e assume v: "vote userId choice now s = (Inl e, s)"
    from Cons.IH [OF Cons.prems] show ?thesis
      by (simp add: call v split_beta Let_def)
  next
    fix v s1
    assume v: "vote userId choice now s = (Inr v, s1)" and n: "userId \<notin> set (voters g)"
      and g1: "gameState s1 = Some (g\<lparr>votes := v, voters := voters g @ [userId]\<rparr>)"
      and lv: "logical v = logical (votes g) + (if choice = Logical then 1 else 0)"
      and cv: "chaotic v = chaotic (votes g) + (if choice = Chaotic then 1 else 0)"
    have d: "distinct (voters (g\<lparr>votes := v, voters := voters g @ [userId]\<rparr>))"
      using Cons.prems(2) n by simp
    have f: "fst (castVotes (call # calls) s) = Inr v # fst (castVotes calls s1)"
      and s: "snd (castVotes (call # calls) s) = snd (castVotes calls s1)"
      by (simp_all add: call v split_beta Let_def)
    have a: "accepted (call # calls) (Inr v # fst (castVotes calls s1))
             = (userId, choice) # accepted calls (fst (castVotes calls s1))"
      by (simp add: call)
    from Cons.IH [OF g1 d] obtain g' where
      "gameState (snd (castVotes calls s1)) = Some g'"
      "voters g' = (voters g @ [userId]) @ map fst (accepted calls (fst (castVotes calls s1)))"
      "distinct (voters g')"
      "logical (votes g') = logical v
         + length (filter (\<lambda>(u, c). c = Logical) (accepted calls (fst (castVotes calls s1))))"
      "chaotic (votes g') = chaotic v
         + length (filter (\<lambda>(u, c). c = Chaotic) (accepted calls (fst (castVotes calls s1))))"
      by auto
    then show ?thesis
      unfolding f s a by (simp add: lv cv)
  qed
qed

lemma startVotingTimer_round:
  assumes "gameState s0 = Some g0"
  shows "gameState (startVotingTimer t0 s0) =
     Some (g0\<lparr>votingOpen := True, voters := [], votes := \<lparr>logical = 0, chaotic = 0\<rparr>,
              timerEnd := t0 + 10000\<rparr>)"
  using assms
  by (simp add: startVotingTimer_def Let_def saveGameState_def setAlarm_def
      broadcastGameState_def broadcast_def)

lemma new_Set_aux:
  "distinct (acc @ xs) \<Longrightarrow> foldl (\<lambda>acc x. set_add x acc) acc xs = acc @ xs"
  by (induction xs arbitrary: acc) (auto simp: set_add_def set_has_def)

lemma new_Set_distinct: "distinct xs \<Longrightarrow> new_Set xs = xs"
  using new_Set_aux [of "[]" xs] by (simp add: new_Set_def)

lemma truthy_Some_the: "truthy rc \<Longrightarrow> Some (the rc) = rc"
  by (cases rc) auto

lemma gameInv_loaded:
  assumes "gameInv rc did s"
  shows "\<exists>g. ensureGameStateLoaded now s = s\<lparr>gameState := Some g\<rparr>
             \<and> gameInv rc did (s\<lparr>gameState := Some g\<rparr>)"
proof (cases "gameState s")
  case (Some g)
  have e: "s\<lparr>gameState := Some g\<rparr> = s" using Some by simp
  from assms show ?thesis
    by (intro exI [of _ g]) (simp add: e ensureGameStateLoaded_def Some)
next
  case None
  from assms obtain r where r: "map_of (game_session s) (gameKey rc did) = Some r"
    and k: "session_id r = gameKey rc did" and c: "rowConsistent r"
    by (auto simp: gameInv_def split: option.splits)
  have rec: "(if \<not> truthy (roomCode s) then recoverRoomCodeFromStorage s else s) = s"
    using assms by (auto simp: gameInv_def recoverRoomCodeFromStorage_def split: option.splits)
  have key: "(if truthy (roomCode s) then the (roomCode s) else doId s) = gameKey rc did"
    using assms by (auto simp: gameInv_def gameKey_def)
  have nostore: "\<not> (\<not> truthy (roomCode s) \<and> session_id r \<noteq> doId s)"
    using assms k by (auto simp: gameInv_def gameKey_def)
  have "loadGameState now s = s\<lparr>gameState := Some (fromRecord r)\<rparr>"
    unfolding loadGameState_def rec Let_def key using r nostore by auto
  then have e: "ensureGameStateLoaded now s = s\<lparr>gameState := Some (fromRecord r)\<rparr>"
    using None by (simp add: ensureGameStateLoaded_def)
  have "gameInv rc did (s\<lparr>gameState := Some (fromRecord r)\<rparr>)"
    using assms r k c
    by (simp add: gameInv_def inMemoryAgrees_def fromRecord_def rowConsistent_def new_Set_distinct)
  with e show ?thesis by blast
qed

lemma gameInv_frame:
  assumes "doId s' = doId s" and "roomCode s' = roomCode s" and "do_metadata s' = do_metadata s"
    and "game_session s' = game_session s" and "gameState s' = gameState s"
  shows "gameInv rc did s' = gameInv rc did s" and "usedView rc did s' = usedView rc did s"
  by (simp_all only: gameInv_def usedView_def assms)

lemma gameInv_memory:
  assumes "gameInv rc did s" and "gameState s = Some g"
    and "usedSlides g' = usedSlides g" and "currentSlide g' = currentSlide g"
    and "slideCount g' = slideCount g" and "sessionId g' = sessionId g"
  shows "gameInv rc did (s\<lparr>gameState := Some g'\<rparr>)"
  using assms by (auto simp: gameInv_def inMemoryAgrees_def split: option.splits)

lemma gameInv_save:
  assumes "gameInv rc did s" and "gameState s = Some g"
    and "sessionId g' = sessionId g"
    and "distinct (usedSlides g')" and "currentSlide g' \<in> set (usedSlides g')"
    and "slideCount g' = int (length (usedSlides g'))"
  shows "gameInv rc did (saveGameState now (s\<lparr>gameState := Some g'\<rparr>))"
    and "usedView rc did (saveGameState now (s\<lparr>gameState := Some g'\<rparr>)) = usedSlides g'"
proof -
  have k: "sessionId g = gameKey rc did"
    using assms(1,2) by (auto simp: gameInv_def inMemoryAgrees_def split: option.splits)
  show "gameInv rc did (saveGameState now (s\<lparr>gameState := Some g'\<rparr>))"
    using assms k
    by (simp add: gameInv_def saveGameState_def update_conv' toRecord_def rowConsistent_def
        inMemoryAgrees_def)
  show "usedView rc did (saveGameState now (s\<lparr>gameState := Some g'\<rparr>)) = usedSlides g'"
    using assms k by (simp add: usedView_def saveGameState_def update_conv' toRecord_def)
qed

lemma gameInv_save_frame:
  assumes "gameInv rc did s" and "gameState s = Some g"
    and "doId s' = doId s" and "roomCode s' = roomCode s" and "do_metadata s' = do_metadata s"
    and "game_session s' = game_session s" and "gameState s' = Some g'"
    and "sessionId g' = sessionId g"
    and "distinct (usedSlides g')" and "currentSlide g' \<in> set (usedSlides g')"
    and "slideCount g' = int (length (usedSlides g'))"
  shows "gameInv rc did (saveGameState now s')"
    and "usedView rc did (saveGameState now s') = usedSlides g'"
proof -
  have k: "sessionId g = gameKey rc did"
    using assms(1,2) by (auto simp: gameInv_def inMemoryAgrees_def split: option.splits)
  show "gameInv rc did (saveGameState now s')"
    using assms k
    by (simp add: gameInv_def saveGameState_def update_conv' toRecord_def rowConsistent_def
        inMemoryAgrees_def)
  show "usedView rc did (saveGameState now s') = usedSlides g'"
    using assms k by (simp add: usedView_def saveGameState_def update_conv' toRecord_def)
qed

lemma gameInv_consistent:
  assumes "gameInv rc did s" and "gameState s = Some g"
  shows "distinct (usedSlides g)" and "currentSlide g \<in> set (usedSlides g)"
    and "slideCount g = int (length (usedSlides g))" and "usedView rc did s = usedSlides g"
  using assms
  by (auto simp: gameInv_def inMemoryAgrees_def rowConsistent_def usedView_def split: option.splits)

lemma effect_frames:
  "doId (broadcast m s) = doId s" "roomCode (broadcast m s) = roomCode s"
  "do_metadata (broadcast m s) = do_metadata s" "game_session (broadcast m s) = game_session s"
  "gameState (broadcast m s) = gameState s"
  "doId (setAlarm t s) = doId s" "roomCode (setAlarm t s) = roomCode s"
  "do_metadata (setAlarm t s) = do_metadata s" "game_session (setAlarm t s) = game_session s"
  "gameState (setAlarm t s) = gameState s"
  by (simp_all add: broadcast_def setAlarm_def)

lemma gameInv_effects:
  "gameInv rc did (broadcastGameState now s) = gameInv rc did s"
  "gameInv rc did (broadcastSlideChange n now s) = gameInv rc did s"
  "gameInv rc did (broadcastVoteUpdate now s) = gameInv rc did s"
  "gameInv rc did (startPresentationTimer now s) = gameInv rc did s"
  "gameInv rc did (setAlarm t s) = gameInv rc did s"
  "gameInv rc did (s\<lparr>adjacency := adj\<rparr>) = gameInv rc did s"
  "usedView rc did (broadcastGameState now s) = usedView rc did s"
  "usedView rc did (broadcastSlideChange n now s) = usedView rc did s"
  "usedView rc did (broadcastVoteUpdate now s) = usedView rc did s"
  "usedView rc did (startPresentationTimer now s) = usedView rc did s"
  "usedView rc did (setAlarm t s) = usedView rc did s"
  "usedView rc did (s\<lparr>adjacency := adj\<rparr>) = usedView rc did s"
  "usedView rc did (s\<lparr>gameState := go\<rparr>) = usedView rc did s"
  by (simp_all add: gameInv_def usedView_def broadcastGameState_def broadcastSlideChange_def
      broadcastVoteUpdate_def startPresentationTimer_def broadcast_def setAlarm_def
      split: option.splits)

lemma gameState_effects:
  "gameState (broadcastGameState now s) = gameState s"
  "gameState (broadcastSlideChange n now s) = gameState s"
  "gameState (broadcastVoteUpdate now s) = gameState s"
  "gameState (startPresentationTimer now s) = gameState s"
  "gameState (setAlarm t s) = gameState s"
  "gameState (saveGameState now s) = gameState s"
  by (simp_all add: broadcastGameState_def broadcastSlideChange_def
      broadcastVoteUpdate_def startPresentationTimer_def broadcast_def setAlarm_def
      saveGameState_def split: option.splits)

lemma preserves_loaded:
  assumes "gameInv rc did s"
  shows "preserves rc did s (ensureGameStateLoaded now s)"
  using gameInv_loaded [OF assms, of now]
  by (auto simp: preserves_def gameInv_effects)

lemma preserves_startGame:
  assumes "gameInv rc did s"
  shows "preserves rc did s (snd (startGame env deckId m now s))"
proof -
  from gameInv_loaded [OF assms, of now] obtain g where
    l: "ensureGameStateLoaded now s = s\<lparr>gameState := Some g\<rparr>"
    and i: "gameInv rc did (s\<lparr>gameState := Some g\<rparr>)" by blast
  let ?s1 = "s\<lparr>gameState := Some g\<rparr>"
  let ?g' = "g\<lparr>phase := Presenting, maxSlides := (case m of None \<Rightarrow> 10 | Some k \<Rightarrow> k),
               timerEnd := now + 45000\<rparr>"
  have g1: "gameState ?s1 = Some g" by simp
  note c = gameInv_consistent [OF i g1]
  have v: "usedView rc did s = usedSlides g" using c(4) by (simp add: gameInv_effects)
  have sv: "\<And>s2. gameInv rc did s2 \<Longrightarrow> gameState s2 = Some g \<Longrightarrow>
      preserves rc did s
        (broadcastGameState now (startPresentationTimer now (saveGameState now (s2\<lparr>gameState := Some ?g'\<rparr>))))"
    using c v by (simp add: preserves_def gameInv_effects gameInv_save)
  show ?thesis
  proof (cases "if deckId \<noteq> [] \<and> deckId \<noteq> ''default'' then loadDeck env deckId ?s1 else Inr ?s1")
    case (Inl e)
    then have "snd (startGame env deckId m now s) = ?s1"
      by (simp add: startGame_def l Let_def)
    with i show ?thesis by (simp add: preserves_def gameInv_effects)
  next
    case (Inr s2)
    then have s2: "gameInv rc did s2 \<and> gameState s2 = Some g"
      using i by (auto simp: loadDeck_def gameInv_effects split: if_splits option.splits json.splits)
    have "snd (startGame env deckId m now s) =
      broadcastGameState now (startPresentationTimer now (saveGameState now (s2\<lparr>gameState := Some ?g'\<rparr>)))"
      using Inr by (simp add: startGame_def l Let_def)
    with sv s2 show ?thesis by simp
  qed
qed

lemma preserves_vote:
  assumes "gameInv rc did s"
  shows "preserves rc did s (snd (vote userId choice now s))"
proof -
  from gameInv_loaded [OF assms, of now] obtain g where
    l: "ensureGameStateLoaded now s = s\<lparr>gameState := Some g\<rparr>"
    and i: "gameInv rc did (s\<lparr>gameState := Some g\<rparr>)" by blast
  have g1: "gameState (s\<lparr>gameState := Some g\<rparr>) = Some g" by simp
  have m: "\<And>v. gameInv rc did
      (s\<lparr>gameState := Some (g\<lparr>votes := v, voters := set_add userId (voters g)\<rparr>)\<rparr>)"
    using gameInv_memory [OF i g1] by simp
  show ?thesis
    using i m
    by (simp add: vote_def l Let_def preserves_def gameInv_effects split: VoteChoice.splits)
qed

lemma preserves_getStatus:
  assumes "gameInv rc did s"
  shows "preserves rc did s (snd (getStatus now s))"
  using gameInv_loaded [OF assms, of now]
  by (auto simp: getStatus_def Let_def preserves_def gameInv_effects)

lemma preserves_alarm:
  assumes "gameInv rc did s"
  shows "preserves rc did s (alarm now s)"
proof -
  have rec: "(if \<not> truthy (roomCode s) then recoverRoomCodeFromStorage s else s) = s"
    using assms by (auto simp: gameInv_def recoverRoomCodeFromStorage_def split: option.splits)
  from gameInv_loaded [OF assms, of now] obtain g where
    l: "alarmLoad now s = s\<lparr>gameState := Some g\<rparr>"
    and i: "gameInv rc did (s\<lparr>gameState := Some g\<rparr>)"
    unfolding alarmLoad_def rec by blast
  let ?s1 = "s\<lparr>gameState := Some g\<rparr>"
  have g1: "gameState ?s1 = Some g" by simp
  note c = gameInv_consistent [OF i g1]
  have v: "usedView rc did s = usedSlides g" using c(4) by (simp add: gameInv_effects)
  have keep: "\<And>g'. sessionId g' = sessionId g \<Longrightarrow> usedSlides g' = usedSlides g \<Longrightarrow>
      currentSlide g' = currentSlide g \<Longrightarrow> slideCount g' = slideCount g \<Longrightarrow>
      gameInv rc did (saveGameState now (?s1\<lparr>gameState := Some g'\<rparr>))
      \<and> usedView rc did (saveGameState now (?s1\<lparr>gameState := Some g'\<rparr>)) = usedSlides g"
    using gameInv_save [OF i g1] c by simp
  consider (final) "phase g = Presenting" "slideCount g \<ge> maxSlides g"
    | (more) "phase g = Presenting" "\<not> slideCount g \<ge> maxSlides g"
    | (tally) "phase g = Voting"
    | (idle) "phase g \<noteq> Presenting" "phase g \<noteq> Voting"
    by blast
  then show ?thesis
  proof cases
    case final
    then have "alarm now s =
        broadcastGameState now (saveGameState now (?s1\<lparr>gameState := Some (g\<lparr>phase := Finished\<rparr>)\<rparr>))"
      by (simp add: alarm_snd alarmBody_def l Let_def)
    then show ?thesis
      using keep [of "g\<lparr>phase := Finished\<rparr>"] v by (simp add: preserves_def gameInv_effects)
  next
    case more
    let ?s2 = "saveGameState now (?s1\<lparr>gameState := Some (g\<lparr>phase := Voting\<rparr>)\<rparr>)"
    let ?gv = "g\<lparr>phase := Voting, votingOpen := True, voters := [],
                 votes := \<lparr>logical = 0, chaotic = 0\<rparr>, timerEnd := now + 10000\<rparr>"
    have a: "alarm now s = startVotingTimer now ?s2"
      using more by (simp add: alarm_snd alarmBody_def l Let_def)
    have i2: "gameInv rc did ?s2" using keep [of "g\<lparr>phase := Voting\<rparr>"] by simp
    have g2: "gameState ?s2 = Some (g\<lparr>phase := Voting\<rparr>)" by (simp add: gameState_effects)
    have b: "startVotingTimer now ?s2 =
        broadcastGameState now (setAlarm (now + 10000)
          (saveGameState now (?s2\<lparr>gameState := Some ?gv\<rparr>)))"
      by (simp add: startVotingTimer_def gameState_effects Let_def)
    have "gameInv rc did (saveGameState now (?s2\<lparr>gameState := Some ?gv\<rparr>))"
      and "usedView rc did (saveGameState now (?s2\<lparr>gameState := Some ?gv\<rparr>)) = usedSlides ?gv"
      using gameInv_save [OF i2 g2, of ?gv now] c by simp_all
    then show ?thesis
      using v unfolding a b by (simp add: preserves_def gameInv_effects)
  next
    case tally
    let ?g1 = "g\<lparr>votingOpen := False\<rparr>"
    let ?sa = "?s1\<lparr>gameState := Some ?g1\<rparr>"
    let ?n = "getNextSlide (winner (votes ?g1)) ?sa"
    have a: "alarm now s = snd (processVotesAndAdvance now ?s1)"
      using tally by (simp add: alarm_snd alarmBody_def l Let_def)
    have ia: "gameInv rc did ?sa" using gameInv_memory [OF i g1, of ?g1] by simp
    have ga: "gameState ?sa = Some ?g1" by simp
    show ?thesis
    proof (cases ?n)
      case (Inl e)
      then have "snd (processVotesAndAdvance now ?s1) = ?sa"
        by (simp add: processVotesAndAdvance_def Let_def)
      with ia show ?thesis
        unfolding a by (simp add: preserves_def gameInv_effects)
    next
      case (Inr nextSlide)
      show ?thesis
      proof (cases "\<not> truthy nextSlide \<or> slideCount ?g1 \<ge> maxSlides ?g1")
        case True
        let ?gf = "?g1\<lparr>phase := Finished\<rparr>"
        let ?z = "broadcastGameState now (?sa\<lparr>gameState := Some ?gf\<rparr>)"
        from True Inr have b: "snd (processVotesAndAdvance now ?s1) = saveGameState now ?z"
          by (simp add: processVotesAndAdvance_def Let_def)
        have "gameInv rc did (saveGameState now ?z)"
          and "usedView rc did (saveGameState now ?z) = usedSlides g"
          using gameInv_save_frame [OF ia ga, of ?z ?gf now] c
          by (simp_all add: broadcastGameState_def broadcast_def)
        then show ?thesis
          using v unfolding a b by (simp add: preserves_def)
      next
        case False
        then obtain n where n: "nextSlide = Some n" by (cases nextSlide) auto
        let ?g2 = "?g1\<lparr>currentSlide := n, usedSlides := set_add n (usedSlides ?g1),
                        slideCount := slideCount ?g1 + 1, phase := Presenting,
                        timerEnd := now + 45000\<rparr>"
        have fresh: "n \<notin> set (usedSlides g)"
          using Inr n by (auto simp: getNextSlide_def firstUnused_Some split: option.splits)
        have b: "snd (processVotesAndAdvance now ?s1) =
            broadcastSlideChange n now (broadcastGameState now (startPresentationTimer now
              (saveGameState now (?sa\<lparr>gameState := Some ?g2\<rparr>))))"
          using False Inr n by (simp add: processVotesAndAdvance_def Let_def)
        have u: "usedSlides ?g2 = usedSlides g @ [n]"
          using fresh by (simp add: set_add_def set_has_def)
        have "gameInv rc did (saveGameState now (?sa\<lparr>gameState := Some ?g2\<rparr>))"
          and "usedView rc did (saveGameState now (?sa\<lparr>gameState := Some ?g2\<rparr>)) = usedSlides ?g2"
          using gameInv_save [OF ia ga, of ?g2 now] c fresh unfolding u by simp_all
        then show ?thesis
          using v unfolding a b u by (auto simp: preserves_def gameInv_effects)
      qed
    qed
  next
    case idle
    then have "alarm now s = ?s1" by (simp add: alarm_snd alarmBody_def l Let_def)
    with i show ?thesis by (simp add: preserves_def gameInv_effects)
  qed
qed

lemma preserves_construct:
  assumes "gameInv rc did s"
  shows "preserves rc did s (construct s)"
  using assms
  by (auto simp: preserves_def gameInv_def usedView_def construct_def initializeTables_def
      loadMockDataIfNeeded_def loadMockSlideData_def recoverRoomCodeFromStorage_def
      inMemoryAgrees_def truthy_Some_the split: option.splits if_splits)

lemma preserves_step:
  assumes "gameInv rc did s"
  shows "preserves rc did s (step op s)"
proof -
  obtain now o' where "op = (now, o')" by (cases op)
  then show ?thesis
    using assms
    by (cases o')
       (simp_all add: preserves_startGame preserves_vote preserves_getStatus preserves_alarm
          preserves_construct preserves_loaded fetch_def webSocketMessage_def)
qed

lemma gameInv_initialize: "gameInv rc did (snd (initialize rc t0 (newSession did)))"
  by (auto simp: gameInv_def initialize_def newSession_def construct_def emptyStorage_def
      initializeTables_def loadMockDataIfNeeded_def loadMockSlideData_def
      recoverRoomCodeFromStorage_def storeRoomCode_def saveGameState_def toRecord_def
      gameKey_def rowConsistent_def inMemoryAgrees_def new_Set_def set_add_def set_has_def
      Let_def truthy_Some_the)

lemma gameInv_run:
  assumes "gameInv rc did s"
  shows "gameInv rc did (run ops s)"
  using assms
proof (induction ops arbitrary: s)
  case Nil
  then show ?case by (simp add: run_def)
next
  case (Cons op ops)
  from preserves_step [OF Cons.prems, of op] have "gameInv rc did (step op s)"
    by (simp add: preserves_def)
  from Cons.IH [OF this] show ?case by (simp add: run_def)
qed

lemma gameInv_visible:
  assumes "gameInv rc did s"
  shows "\<exists>g. visible s = Some g \<and> usedSlides g = usedView rc did s
            \<and> currentSlide g \<in> set (usedSlides g)
            \<and> slideCount g = int (card (set (usedSlides g)))"
proof -
  from gameInv_loaded [OF assms, of 0] obtain g where
    l: "ensureGameStateLoaded 0 s = s\<lparr>gameState := Some g\<rparr>"
    and i: "gameInv rc did (s\<lparr>gameState := Some g\<rparr>)" by blast
  have g1: "gameState (s\<lparr>gameState := Some g\<rparr>) = Some g" by simp
  note c = gameInv_consistent [OF i g1]
  have "card (set (usedSlides g)) = length (usedSlides g)" using c(1) by (rule distinct_card)
  with c show ?thesis by (simp add: visible_def l gameInv_effects)
qed

section \<open>startGame and the phase\<close>

text \<open>
  C1 (as the code has it).  \<open>startGame\<close> does not look at the phase.  Whenever a session
  state is in memory, the outcome is decided by the deck step alone: if that step fails,
  \<open>startGame\<close> returns its error and leaves the object as it was; otherwise it succeeds,
  from \<open>waiting\<close>, \<open>presenting\<close>, \<open>voting\<close> and \<open>finished\<close> alike, and sets the phase
  to \<open>presenting\<close>, \<open>maxSlides\<close> to the argument (10 by default) and the deadline to 45
  seconds from now.  No response of the source stands for an invalid state.
\<close>

theorem startGame_ignores_phase:
  assumes "gameState s = Some g"
  shows "case (if deckId \<noteq> [] \<and> deckId \<noteq> ''default'' then loadDeck env deckId s else Inr s) of
           Inl e \<Rightarrow> startGame env deckId m now s = (Inl e, s)
         | Inr s2 \<Rightarrow>
             (let g' = g\<lparr>phase := Presenting,
                         maxSlides := (case m of None \<Rightarrow> 10 | Some k \<Rightarrow> k),
                         timerEnd := now + 45000\<rparr>
              in gameState (snd (startGame env deckId m now s)) = Some g'
                 \<and> fst (startGame env deckId m now s) =
                     Inr (Some \<lparr>pub_sessionId = sessionId g, pub_currentSlide = currentSlide g,
                                pub_phase = Presenting, pub_votes = votes g,
                                pub_timeRemaining = 45000,
                                pub_slideCount = slideCount g,
                                pub_maxSlides = (case m of None \<Rightarrow> 10 | Some k \<Rightarrow> k),
                                pub_votingOpen = votingOpen g\<rparr>))"
  using assms
  by (auto simp: startGame_def ensureGameStateLoaded_def Let_def saveGameState_def
      startPresentationTimer_def setAlarm_def broadcastGameState_def broadcast_def
      getPublicGameState_def loadDeck_def split: sum.splits option.splits json.splits)

theorem startGame_ignores_phase_witness:
  "map_option phase (gameState demoFinished) = Some Finished
   \<and> map_option phase (gameState (snd (startGame demoEnv ''default'' (Some 5) 50000 demoFinished)))
       = Some Presenting
   \<and> map_option maxSlides (gameState (snd (startGame demoEnv ''default'' (Some 5) 50000 demoFinished)))
       = Some 5"
  using startGame_ignores_phase [OF demoFinished_gameState,
          where deckId = "''default''" and env = demoEnv and m = "Some 5" and now = 50000]
  by (simp add: demoFinished_gameState)

text \<open>
  C1 as stated fails: a game that has reached \<open>finished\<close> is started again, successfully,
  and is \<open>presenting\<close> afterwards.
\<close>

theorem startGame_finished_counterexample:
  "map_option phase (gameState demoFinished) = Some Finished
   \<and> fst (startGame demoEnv ''default'' (Some 5) 50000 demoFinished) =
       Inr (Some \<lparr>pub_sessionId = ''ROOM01'', pub_currentSlide = ''slide_1'',
                  pub_phase = Presenting, pub_votes = \<lparr>logical = 0, chaotic = 0\<rparr>,
                  pub_timeRemaining = 45000, pub_slideCount = 1, pub_maxSlides = 5,
                  pub_votingOpen = False\<rparr>)
   \<and> map_option phase (gameState (snd (startGame demoEnv ''default'' (Some 5) 50000 demoFinished)))
       = Some Presenting"
  by (simp add: demo_defs coordinator_defs Let_def)

section \<open>Tie-break\<close>

text \<open>
  C2.  The timer fires on a session in the \<open>voting\<close> phase.  The winning choice is
  \<open>logical\<close> exactly when \<open>votes.logical\<close> is strictly greater than \<open>votes.chaotic\<close>;
  otherwise, and so for every tied tally, 0-0 included, it is \<open>chaotic\<close>.  The handler
  looks up the neighbour list of that choice: it finishes or advances by it, or, when the
  current slide has no adjacency row, stops at the exception of the lookup, which it catches.
\<close>

theorem voting_timer_winner:
  assumes "gameState (alarmLoad now s) = Some g" and "phase g = Voting"
  shows "(winner (votes g) = Logical) = (logical (votes g) > chaotic (votes g))
     \<and> (winner (votes g) = Chaotic) = (logical (votes g) \<le> chaotic (votes g))
     \<and> (logical (votes g) = chaotic (votes g) \<longrightarrow> winner (votes g) = Chaotic)
     \<and> gameState (alarm now s) =
         Some (case getNextSlide (winner (votes g))
                      ((alarmLoad now s)\<lparr>gameState := Some (g\<lparr>votingOpen := False\<rparr>)\<rparr>) of
                 Inl e \<Rightarrow> g\<lparr>votingOpen := False\<rparr>
               | Inr n \<Rightarrow>
                   if \<not> truthy n \<or> slideCount g \<ge> maxSlides g
                   then g\<lparr>votingOpen := False, phase := Finished\<rparr>
                   else g\<lparr>votingOpen := False, currentSlide := the n,
                          usedSlides := set_add (the n) (usedSlides g),
                          slideCount := slideCount g + 1, phase := Presenting,
                          timerEnd := now + 45000\<rparr>)"
proof -
  have w: "(winner (votes g) = Logical) = (logical (votes g) > chaotic (votes g))"
    "(winner (votes g) = Chaotic) = (logical (votes g) \<le> chaotic (votes g))"
    "logical (votes g) = chaotic (votes g) \<longrightarrow> winner (votes g) = Chaotic"
    by (auto simp: winner_def)
  have "gameState (alarm now s) = gameState (snd (processVotesAndAdvance now (alarmLoad now s)))"
    using alarm_voting(2) [OF assms] by simp
  also note processVotesAndAdvance_gameState(1) [OF assms(1), of now]
  finally show ?thesis using w by blast
qed

theorem voting_timer_winner_witness:
  "map_option votes (gameState (alarmLoad 55001 demoVoting)) = Some \<lparr>logical = 0, chaotic = 0\<rparr>
   \<and> map_option currentSlide (gameState (alarm 55001 demoVoting)) = Some ''slide_8''
   \<and> map_option votes (gameState (alarmLoad 55001 demoVoted)) = Some \<lparr>logical = 1, chaotic = 0\<rparr>
   \<and> map_option currentSlide (gameState (alarm 55001 demoVoted)) = Some ''slide_2''"
proof -
  let ?t = "\<lparr>sessionId = ''ROOM01'', currentSlide = ''slide_1'', usedSlides = [''slide_1''],
      phase = Voting, votes = \<lparr>logical = 0, chaotic = 0\<rparr>, voters = [],
      votingOpen = True, timerEnd = 55001, slideCount = 1, maxSlides = 3\<rparr>"
  let ?v = "\<lparr>sessionId = ''ROOM01'', currentSlide = ''slide_1'', usedSlides = [''slide_1''],
      phase = Voting, votes = \<lparr>logical = 1, chaotic = 0\<rparr>, voters = [''v1''],
      votingOpen = True, timerEnd = 55001, slideCount = 1, maxSlides = 3\<rparr>"
  have lt: "gameState (alarmLoad 55001 demoVoting) = Some ?t"
    by (rule alarmLoad_in_memory [OF demoVoting_gameState])
  have lv: "gameState (alarmLoad 55001 demoVoted) = Some ?v"
    by (rule alarmLoad_in_memory [OF demoVoted_gameState])
  have pt: "phase ?t = Voting" and pv: "phase ?v = Voting" by simp_all
  have nt: "getNextSlide Chaotic ((alarmLoad 55001 demoVoting)\<lparr>gameState := Some
      \<lparr>sessionId = ''ROOM01'', currentSlide = ''slide_1'', usedSlides = [''slide_1''],
       phase = Voting, votes = \<lparr>logical = 0, chaotic = 0\<rparr>, voters = [],
       votingOpen = False, timerEnd = 55001, slideCount = 1, maxSlides = 3\<rparr>\<rparr>)
            = Inr (Some ''slide_8'')"
    by (simp add: demo_defs coordinator_defs Let_def)
  have nv: "getNextSlide Logical ((alarmLoad 55001 demoVoted)\<lparr>gameState := Some
      \<lparr>sessionId = ''ROOM01'', currentSlide = ''slide_1'', usedSlides = [''slide_1''],
       phase = Voting, votes = \<lparr>logical = Suc 0, chaotic = 0\<rparr>, voters = [''v1''],
       votingOpen = False, timerEnd = 55001, slideCount = 1, maxSlides = 3\<rparr>\<rparr>)
            = Inr (Some ''slide_2'')"
    by (simp add: demo_defs coordinator_defs Let_def)
  have wt: "winner (votes ?t) = Chaotic" using voting_timer_winner [OF lt pt] by simp
  have wv: "winner (votes ?v) = Logical" using voting_timer_winner [OF lv pv] by simp
  have "map_option currentSlide (gameState (alarm 55001 demoVoting)) = Some ''slide_8''"
    using voting_timer_winner [OF lt pt] by (simp add: wt nt)
  moreover have "map_option currentSlide (gameState (alarm 55001 demoVoted)) = Some ''slide_2''"
    using voting_timer_winner [OF lv pv] by (simp add: wv nv)
  ultimately show ?thesis by (simp add: lt lv)
qed

section \<open>Order of persisting and broadcasting\<close>

text \<open>
  C3, evaluated where the code departs from it.  A game on a deck of one slide is in the
  voting phase; the voting timer fires, no next slide exists, and the session becomes
  \<open>finished\<close>.  The effects of that timer fire are the broadcast of the \<open>finished\<close> state
  first and the write of the session row second.
\<close>

theorem finished_broadcast_precedes_persist:
  "map_option phase (gameState soloVoting) = Some Voting
   \<and> drop (length (effects soloVoting)) (effects (alarm 55001 soloVoting)) =
     [Broadcast (GameStateMsg
        (Some \<lparr>pub_sessionId = ''ROOM01'', pub_currentSlide = ''slide_1'',
               pub_phase = Finished, pub_votes = \<lparr>logical = 0, chaotic = 0\<rparr>,
               pub_timeRemaining = 0, pub_slideCount = 1, pub_maxSlides = 5,
               pub_votingOpen = False\<rparr>) 55001),
      Persisted \<lparr>session_id = ''ROOM01'', current_slide = ''slide_1'',
                 used_slides = [''slide_1''], row_phase = Finished, slide_count = 1,
                 max_slides = 5, timer_end = 55001, created_at = 55001,
                 updated_at = 55001\<rparr>]"
  by (simp add: soloVoting_def soloEnv_def demo_defs coordinator_defs Let_def)

section \<open>Duplicate votes\<close>

text \<open>
  C8.  A voter whose id is already recorded in the open round votes again, with either
  choice: the call is rejected with the response \<open>User has already voted\<close>, and the object,
  tallies and voters included, is exactly as before (nothing is broadcast either).
\<close>

theorem vote_duplicate_rejected:
  assumes "gameState s = Some g" and "votingOpen g" and "userId \<in> set (voters g)"
  shows "vote userId choice now s = (Inl UserAlreadyVoted, s)
         \<and> error_message UserAlreadyVoted = ''User has already voted''"
  using assms by (simp add: vote_def ensureGameStateLoaded_def set_has_def)

theorem vote_duplicate_rejected_witness:
  "map_option votingOpen (gameState demoVoted) = Some True
   \<and> map_option voters (gameState demoVoted) = Some [''v1'']
   \<and> vote ''v1'' Chaotic 45003 demoVoted = (Inl UserAlreadyVoted, demoVoted)
   \<and> vote ''v1'' Logical 45003 demoVoted = (Inl UserAlreadyVoted, demoVoted)"
  using vote_duplicate_rejected [OF demoVoted_gameState, of "''v1''" Chaotic 45003]
        vote_duplicate_rejected [OF demoVoted_gameState, of "''v1''" Logical 45003]
  by (simp add: demoVoted_gameState)

section \<open>Operations on a coordinator without a session record\<close>

text \<open>
  C9 (as the code has it).  On a coordinator with no session state in memory and no row in
  \<open>game_session\<close>, \<open>startGame\<close> fails with \<open>Session not initialized\<close> and \<open>getStatus\<close>
  with \<open>Session not found\<close>; \<open>vote\<close> fails too, but with \<open>Voting is not currently open\<close>, the
  response it also gives when a round is closed.  None of them writes a row or has an effect.
\<close>

theorem uninitialized_operations_fail:
  assumes "gameState s = None" and "game_session s = []"
  shows "fst (startGame env deckId m now s) = Inl SessionNotInitialized
         \<and> fst (vote userId choice now s) = Inl VotingNotOpen
         \<and> fst (getStatus now s) = Inl SessionNotFound
         \<and> snd (startGame env deckId m now s) = ensureGameStateLoaded now s
         \<and> snd (vote userId choice now s) = ensureGameStateLoaded now s
         \<and> gameState (ensureGameStateLoaded now s) = None
         \<and> game_session (ensureGameStateLoaded now s) = []
         \<and> effects (ensureGameStateLoaded now s) = effects s"
  using load_without_rows [OF assms, of now]
  by (simp add: startGame_def vote_def getStatus_def Let_def)

theorem uninitialized_operations_fail_witness:
  "gameState (newSession ''do1'') = None \<and> game_session (newSession ''do1'') = []
   \<and> fst (startGame demoEnv ''default'' None 0 (newSession ''do1'')) = Inl SessionNotInitialized
   \<and> fst (vote ''v1'' Logical 0 (newSession ''do1'')) = Inl VotingNotOpen"
proof -
  have h1: "gameState (newSession ''do1'') = None" by (simp add: coordinator_defs)
  have h2: "game_session (newSession ''do1'') = []" by (simp add: coordinator_defs)
  show ?thesis
    using uninitialized_operations_fail [OF h1 h2, of demoEnv "''default''" None 0 "''v1''" Logical] h1 h2
    by simp
qed

text \<open>
  C9 as stated fails for \<open>vote\<close>: on a new coordinator its error is neither of the two
  responses the source has for a missing session.
\<close>

theorem vote_uninitialized_counterexample:
  "game_session (newSession ''do1'') = []
   \<and> gameState (newSession ''do1'') = None
   \<and> fst (vote ''v1'' Logical 0 (newSession ''do1'')) = Inl VotingNotOpen
   \<and> fst (vote ''v1'' Logical 0 (newSession ''do1'')) \<noteq> Inl SessionNotFound
   \<and> fst (vote ''v1'' Logical 0 (newSession ''do1'')) \<noteq> Inl SessionNotInitialized"
  by (simp add: coordinator_defs)

section \<open>The final slide\<close>

text \<open>
  C4 (as the code has it).  The timer fires while the session (in memory, or as reloaded by
  the handler) is \<open>presenting\<close> with \<open>slideCount >= maxSlides\<close>.  The session becomes
  \<open>finished\<close> and nothing else in the state changes: \<open>votingOpen\<close> keeps the value it had,
  the tallies and the voters are not cleared, the pending alarm is the one there was, and no
  alarm is set among the effects of the handler.
\<close>

theorem alarm_final_slide_finishes:
  assumes "gameState (alarmLoad now s) = Some g"
    and "phase g = Presenting" and "slideCount g \<ge> maxSlides g"
  shows "gameState (alarm now s) = Some (g\<lparr>phase := Finished\<rparr>)
         \<and> map_option votingOpen (gameState (alarm now s)) = Some (votingOpen g)
         \<and> map_option votes (gameState (alarm now s)) = Some (votes g)
         \<and> map_option voters (gameState (alarm now s)) = Some (voters g)
         \<and> alarmAt (alarm now s) = alarmAt s
         \<and> (\<forall>t. AlarmSet t \<notin> set (drop (length (effects s)) (effects (alarm now s))))"
proof -
  obtain rs where rs: "effects (alarmLoad now s) = effects s @ rs" "\<forall>t. AlarmSet t \<notin> set rs"
    using alarmLoad_effects by blast
  have a: "alarm now s =
      broadcastGameState now
        (saveGameState now ((alarmLoad now s)\<lparr>gameState := Some (g\<lparr>phase := Finished\<rparr>)\<rparr>))"
    using assms by (simp add: alarm_snd alarmBody_def Let_def)
  have g: "gameState (alarm now s) = Some (g\<lparr>phase := Finished\<rparr>)"
    by (simp add: a broadcastGameState_def broadcast_def saveGameState_def)
  have al: "alarmAt (alarm now s) = alarmAt s"
    by (simp add: a broadcastGameState_def broadcast_def saveGameState_def alarmLoad_alarmAt)
  have "\<exists>p b. effects (alarm now s) = effects s @ rs @ [Persisted p, Broadcast b]"
    by (simp add: a broadcastGameState_def broadcast_def saveGameState_def rs)
  then have e: "\<forall>t. AlarmSet t \<notin> set (drop (length (effects s)) (effects (alarm now s)))"
    using rs(2) by auto
  from g al e show ?thesis by simp
qed

theorem alarm_final_slide_finishes_witness:
  "map_option phase (gameState (alarmLoad 45001 demoLastSlide)) = Some Presenting
   \<and> map_option (\<lambda>g. slideCount g \<ge> maxSlides g) (gameState (alarmLoad 45001 demoLastSlide)) = Some True
   \<and> map_option phase (gameState (alarm 45001 demoLastSlide)) = Some Finished
   \<and> map_option votingOpen (gameState (alarm 45001 demoLastSlide)) = Some False
   \<and> alarmAt (alarm 45001 demoLastSlide) = Some 45001"
proof -
  have l: "gameState (alarmLoad 45001 demoLastSlide) = Some
     \<lparr>sessionId = ''ROOM01'', currentSlide = ''slide_1'', usedSlides = [''slide_1''],
      phase = Presenting, votes = \<lparr>logical = 0, chaotic = 0\<rparr>, voters = [],
      votingOpen = False, timerEnd = 45001, slideCount = 1, maxSlides = 1\<rparr>"
    by (rule alarmLoad_in_memory [OF demoLastSlide_gameState])
  have al: "alarmAt demoLastSlide = Some 45001"
    by (simp add: demo_defs coordinator_defs Let_def)
  show ?thesis
    using alarm_final_slide_finishes [OF l, simplified] l al by simp
qed

text \<open>
  C4 as stated fails on \<open>votingOpen\<close>: \<open>startGame\<close> is called while a round is open, which
  makes the session \<open>presenting\<close> and leaves \<open>votingOpen\<close> true; the final-slide timer fire
  then finishes the game with \<open>votingOpen\<close> still true.
\<close>

theorem alarm_final_slide_votingOpen_counterexample:
  "map_option phase (gameState demoInterrupted) = Some Presenting
   \<and> map_option slideCount (gameState demoInterrupted) = Some 1
   \<and> map_option maxSlides (gameState demoInterrupted) = Some 1
   \<and> map_option votingOpen (gameState demoInterrupted) = Some True
   \<and> map_option phase (gameState (alarm 95000 demoInterrupted)) = Some Finished
   \<and> map_option votingOpen (gameState (alarm 95000 demoInterrupted)) = Some True"
  by (simp add: demoInterrupted_def demo_defs coordinator_defs Let_def)

section \<open>Next-slide selection\<close>




section \<open>Reloading after recreation\<close>




section \<open>One voter, one vote\<close>

text \<open>
  C7.  A round is opened by \<open>startVotingTimer\<close>, and any sequence of \<open>vote\<close> calls follows.
  Afterwards the number of recorded voters equals \<open>votes.logical + votes.chaotic\<close>; the
  recorded voters are exactly the voters of the accepted calls, no voter has two accepted
  calls, and each tally is the number of accepted calls for that choice: nobody is counted
  twice.
\<close>

theorem voters_match_tallies:
  assumes "gameState s0 = Some g0"
    and "results = fst (castVotes calls (startVotingTimer t0 s0))"
    and "s = snd (castVotes calls (startVotingTimer t0 s0))"
  shows "\<exists>g. gameState s = Some g
     \<and> card (set (voters g)) = logical (votes g) + chaotic (votes g)
     \<and> voters g = map fst (accepted calls results)
     \<and> distinct (map fst (accepted calls results))
     \<and> logical (votes g) = length (filter (\<lambda>(u, c). c = Logical) (accepted calls results))
     \<and> chaotic (votes g) = length (filter (\<lambda>(u, c). c = Chaotic) (accepted calls results))"
proof -
  let ?g1 = "g0\<lparr>votingOpen := True, voters := [], votes := \<lparr>logical = 0, chaotic = 0\<rparr>,
              timerEnd := t0 + 10000\<rparr>"
  have d: "distinct (voters ?g1)" by simp
  from castVotes_round [OF startVotingTimer_round [OF assms(1)] d, of calls]
  obtain g where g: "gameState s = Some g"
    and vs: "voters g = map fst (accepted calls results)"
    and dist: "distinct (voters g)"
    and l: "logical (votes g) = length (filter (\<lambda>(u, c). c = Logical) (accepted calls results))"
    and c: "chaotic (votes g) = length (filter (\<lambda>(u, c). c = Chaotic) (accepted calls results))"
    using assms(2,3) by auto
  have "card (set (voters g)) = length (voters g)"
    using dist by (rule distinct_card)
  then have "card (set (voters g)) = length (accepted calls results)"
    by (simp add: vs)
  then have "card (set (voters g)) = logical (votes g) + chaotic (votes g)"
    using l c choice_partition [of "accepted calls results"] by simp
  with g vs dist l c show ?thesis by auto
qed

theorem voters_match_tallies_witness:
  "map_option phase (gameState demoPresenting) = Some Presenting
   \<and> map_option voters (gameState (snd (castVotes demoCalls (startVotingTimer 45001 demoPresenting))))
       = Some [''v1'', ''v2'', ''v3'']
   \<and> map_option votes (gameState (snd (castVotes demoCalls (startVotingTimer 45001 demoPresenting))))
       = Some \<lparr>logical = 2, chaotic = 1\<rparr>
   \<and> accepted demoCalls (fst (castVotes demoCalls (startVotingTimer 45001 demoPresenting)))
       = [(''v1'', Logical), (''v2'', Chaotic), (''v3'', Logical)]"
proof -
  have r: "fst (castVotes demoCalls (startVotingTimer 45001 demoPresenting)) =
      [Inr \<lparr>logical = 1, chaotic = 0\<rparr>, Inr \<lparr>logical = 1, chaotic = 1\<rparr>, Inl UserAlreadyVoted,
       Inr \<lparr>logical = 2, chaotic = 1\<rparr>, Inl UserAlreadyVoted]"
    by (simp add: demoCalls_def demo_defs coordinator_defs Let_def)
  have a: "accepted demoCalls (fst (castVotes demoCalls (startVotingTimer 45001 demoPresenting)))
       = [(''v1'', Logical), (''v2'', Chaotic), (''v3'', Logical)]"
    by (simp add: r) (simp add: demoCalls_def)
  from voters_match_tallies [OF demoPresenting_gameState refl refl, of demoCalls 45001]
  obtain g where
    "gameState (snd (castVotes demoCalls (startVotingTimer 45001 demoPresenting))) = Some g"
    "voters g = [''v1'', ''v2'', ''v3'']" "logical (votes g) = 2" "chaotic (votes g) = 1"
    unfolding a by auto
  then show ?thesis
    using a by (simp add: demoPresenting_gameState)
qed

section \<open>The used slides\<close>

text \<open>
  C6.  Take any game (\<open>initialize\<close> on a new coordinator, with or without a room code) and
  any sequence of operations on it.  In the session state after the sequence, the current
  slide is one of the used slides and \<open>slideCount\<close> is the number of used slides; and
  whatever operation comes next, every slide used before it is still used after it.
\<close>

theorem usedSlides_invariant:
  "\<exists>g g'. visible (run ops (snd (initialize rc t0 (newSession did)))) = Some g
     \<and> visible (step op (run ops (snd (initialize rc t0 (newSession did))))) = Some g'
     \<and> currentSlide g \<in> set (usedSlides g)
     \<and> slideCount g = int (card (set (usedSlides g)))
     \<and> set (usedSlides g) \<subseteq> set (usedSlides g')"
proof -
  let ?s = "run ops (snd (initialize rc t0 (newSession did)))"
  have i: "gameInv rc did ?s" by (rule gameInv_run [OF gameInv_initialize])
  from preserves_step [OF i, of op]
  have i': "gameInv rc did (step op ?s)"
    and m: "set (usedView rc did ?s) \<subseteq> set (usedView rc did (step op ?s))"
    by (simp_all add: preserves_def)
  from gameInv_visible [OF i] gameInv_visible [OF i'] m show ?thesis by auto
qed

theorem usedSlides_invariant_witness:
  "map_option usedSlides (visible (run demoOps (snd (initialize (Some ''ROOM01'') 0 (newSession ''do1'')))))
     = Some [''slide_1'']
   \<and> map_option usedSlides
        (visible (step (55001, Alarm)
           (run demoOps (snd (initialize (Some ''ROOM01'') 0 (newSession ''do1''))))))
     = Some [''slide_1'', ''slide_8'']
   \<and> map_option slideCount
        (visible (step (55001, Alarm)
           (run demoOps (snd (initialize (Some ''ROOM01'') 0 (newSession ''do1''))))))
     = Some 2"
proof -
  have e1: "visible (run demoOps (snd (initialize (Some ''ROOM01'') 0 (newSession ''do1'')))) =
     Some \<lparr>sessionId = ''ROOM01'', currentSlide = ''slide_1'', usedSlides = [''slide_1''],
           phase = Voting, votes = \<lparr>logical = 0, chaotic = 0\<rparr>, voters = [],
           votingOpen = False, timerEnd = 55001, slideCount = 1, maxSlides = 3\<rparr>"
    by (simp add: visible_def run_def demoOps_def demo_defs coordinator_defs Let_def)
  have e2: "visible (step (55001, Alarm)
       (run demoOps (snd (initialize (Some ''ROOM01'') 0 (newSession ''do1''))))) =
     Some \<lparr>sessionId = ''ROOM01'', currentSlide = ''slide_8'',
           usedSlides = [''slide_1'', ''slide_8''], phase = Presenting,
           votes = \<lparr>logical = 0, chaotic = 0\<rparr>, voters = [], votingOpen = False,
           timerEnd = 100001, slideCount = 2, maxSlides = 3\<rparr>"
    by (simp add: visible_def run_def demoOps_def demo_defs coordinator_defs Let_def)
  from usedSlides_invariant [of demoOps "Some ''ROOM01''" 0 "''do1''" "(55001, Alarm)"]
  show ?thesis
    unfolding e1 e2 by simp
qed

end
